theory Spec2Isabelle
  imports Complex_Main "HOL-Library.Monad_Syntax"
begin

section \<open>Analytic acquisition functions (botorch/acquisition/analytic.py)\<close>

text \<open>
  The acquisition functions of \<^verbatim>\<open>analytic.py\<close> work on tensors. A tensor is described here
  by two things: its shape (a list of sizes) and its entries. Every arithmetic operation of
  the source is elementwise, so the value of a score at one batch element is a function of
  the posterior moments at that batch element; these functions are the \<open>_forward\<close>
  definitions below. The shapes are followed separately by the \<open>_forward_shape\<close>
  definitions, which apply torch's shape rules (view, squeeze, broadcasting) line by line.

  Tensor entries are real numbers. An entry that torch would compute as NaN (the square
  root of a negative number, the mean of an empty dimension) is \<open>None\<close>. The program
  computes in floating point: what is proved of the real numbers is proved of the formula
  that the program evaluates, not of the rounding of its result.
\<close>

subsection \<open>Errors\<close>

datatype error =
    ValueError string
  | UnsupportedError string
  | KeyError
  | IndexError
  | RuntimeError
  | AssertionError

subsection \<open>Entries: torch's elementwise primitives\<close>

definition clamp_min :: "real \<Rightarrow> real \<Rightarrow> real" where
  "clamp_min x lo = (if x < lo then lo else x)"

definition torch_sqrt :: "real \<Rightarrow> real option" where
  "torch_sqrt x = (if x < 0 then None else Some (sqrt x))"

definition eps :: real where
  "eps = 1 / 10 ^ 9"

subsection \<open>torch.distributions.Normal\<close>

text \<open>
  \<^verbatim>\<open>Normal.log_prob\<close> and \<^verbatim>\<open>Normal.cdf\<close> as torch defines them:
  \<^verbatim>\<open>
    var = scale ** 2
    log_prob(value) = -((value - loc) ** 2) / (2 * var) - log(scale) - log(sqrt(2 * pi))
    cdf(value) = 0.5 * (1 + erf((value - loc) * scale.reciprocal() / sqrt(2)))
  \<close>
  The error function \<open>erf\<close> is a primitive of torch; it is a parameter here.
\<close>

record Normal =
  loc :: real
  scale :: real

definition log_prob :: "Normal \<Rightarrow> real \<Rightarrow> real" where
  "log_prob d v = - ((v - loc d) ^ 2) / (2 * (scale d) ^ 2) - ln (scale d) - ln (sqrt (2 * pi))"

definition cdf :: "(real \<Rightarrow> real) \<Rightarrow> Normal \<Rightarrow> real \<Rightarrow> real" where
  "cdf erf d v = 0.5 * (1 + erf ((v - loc d) * inverse (scale d) / sqrt 2))"

definition std_normal :: Normal where
  "std_normal = \<lparr>loc = 0, scale = 1\<rparr>"

text \<open>The standard normal density and distribution function, as the specification names them.\<close>

definition phi :: "real \<Rightarrow> real" where
  "phi u = exp (- (u ^ 2) / 2) / sqrt (2 * pi)"

definition Phi :: "(real \<Rightarrow> real) \<Rightarrow> real \<Rightarrow> real" where
  "Phi erf u = (1 + erf (u / sqrt 2)) / 2"

subsection \<open>ExpectedImprovement.forward, at one batch element\<close>

text \<open>
  \<open>best_f\<close> is the entry of \<^verbatim>\<open>self.best_f.expand_as(mean)\<close> at the batch element,
  \<open>mean\<close> and \<open>variance\<close> the entries of the posterior's mean and variance there.
\<close>

definition ExpectedImprovement_forward ::
  "(real \<Rightarrow> real) \<Rightarrow> real \<Rightarrow> bool \<Rightarrow> real \<Rightarrow> real \<Rightarrow> real option" where
  "ExpectedImprovement_forward erf best_f maximize mean variance =
     do {
       sigma \<leftarrow> torch_sqrt (clamp_min variance eps);
       let u = (mean - best_f) / sigma;
       let u = (if \<not> maximize then - u else u);
       let ucdf = cdf erf std_normal u;
       let updf = exp (log_prob std_normal u);
       let ei = sigma * (updf + u * ucdf);
       Some ei
     }"

subsection \<open>PosteriorMean, ProbabilityOfImprovement and UpperConfidenceBound, at one batch element\<close>

definition PosteriorMean_forward :: "real \<Rightarrow> real" where
  "PosteriorMean_forward mean = mean"

definition ProbabilityOfImprovement_forward ::
  "(real \<Rightarrow> real) \<Rightarrow> real \<Rightarrow> bool \<Rightarrow> real \<Rightarrow> real \<Rightarrow> real option" where
  "ProbabilityOfImprovement_forward erf best_f maximize mean variance =
     do {
       s \<leftarrow> torch_sqrt variance;
       let sigma = clamp_min s eps;
       let u = (mean - best_f) / sigma;
       let u = (if \<not> maximize then - u else u);
       Some (cdf erf std_normal u)
     }"

definition UpperConfidenceBound_forward :: "real \<Rightarrow> bool \<Rightarrow> real \<Rightarrow> real \<Rightarrow> real option" where
  "UpperConfidenceBound_forward beta maximize mean variance =
     do {
       delta \<leftarrow> torch_sqrt (beta * variance);
       if maximize then Some (mean + delta) else Some (mean - delta)
     }"

subsection \<open>ConstrainedExpectedImprovement: construction\<close>

text \<open>
  The constraints are a Python dict from output index to a pair of optional bounds: an
  association list in insertion order, with distinct keys. The attributes and buffers that
  \<^verbatim>\<open>_preprocess_constraint_bounds\<close> sets are the fields of \<open>ConstraintBounds\<close>.
\<close>

type_synonym bounds = "real option \<times> real option"

type_synonym constraints = "(int \<times> bounds) list"

record ConstraintBounds =
  constraint_lower_inds :: "int list"
  constraint_upper_inds :: "int list"
  constraint_both_inds :: "int list"
  constraint_lower :: "real list"
  constraint_upper :: "real list"
  constraint_both :: "(real \<times> real) list"

definition no_bounds :: ConstraintBounds where
  "no_bounds = \<lparr>constraint_lower_inds = [], constraint_upper_inds = [],
     constraint_both_inds = [], constraint_lower = [], constraint_upper = [],
     constraint_both = []\<rparr>"

text \<open>The loop \<^verbatim>\<open>for k in constraint_indices\<close>, with the three lists it appends to.\<close>

fun preprocess_loop :: "constraints \<Rightarrow> int list \<Rightarrow> ConstraintBounds \<Rightarrow> error + ConstraintBounds" where
  "preprocess_loop cs [] st = Inr st"
| "preprocess_loop cs (k # ks) st =
     (case map_of cs k of
        None \<Rightarrow> Inl KeyError
      | Some (Some lo, Some hi) \<Rightarrow>
          if hi \<le> lo then Inl (ValueError ''Upper bound is less than the lower bound.'')
          else preprocess_loop cs ks
                 (st\<lparr>constraint_both_inds := constraint_both_inds st @ [k],
                     constraint_both := constraint_both st @ [(lo, hi)]\<rparr>)
      | Some (Some lo, None) \<Rightarrow>
          preprocess_loop cs ks
            (st\<lparr>constraint_lower_inds := constraint_lower_inds st @ [k],
                constraint_lower := constraint_lower st @ [lo]\<rparr>)
      | Some (None, Some hi) \<Rightarrow>
          preprocess_loop cs ks
            (st\<lparr>constraint_upper_inds := constraint_upper_inds st @ [k],
                constraint_upper := constraint_upper st @ [hi]\<rparr>)
      | Some (None, None) \<Rightarrow> preprocess_loop cs ks st)"

definition preprocess_constraint_bounds :: "int \<Rightarrow> constraints \<Rightarrow> error + ConstraintBounds" where
  "preprocess_constraint_bounds objective_index cs =
     (let constraint_indices = map fst cs in
      if length constraint_indices = 0
      then Inl (ValueError ''There must be at least one constraint.'')
      else if objective_index \<in> set constraint_indices
      then Inl (ValueError ''Output corresponding to objective should not be a constraint.'')
      else preprocess_loop cs constraint_indices no_bounds)"

record ConstrainedExpectedImprovement =
  cei_maximize :: bool
  cei_objective_index :: int
  cei_best_f :: real
  cei_bounds :: ConstraintBounds

definition ConstrainedExpectedImprovement_init ::
  "real \<Rightarrow> int \<Rightarrow> constraints \<Rightarrow> bool \<Rightarrow> error + ConstrainedExpectedImprovement" where
  "ConstrainedExpectedImprovement_init best_f objective_index cs maximize =
     (case preprocess_constraint_bounds objective_index cs of
        Inl e \<Rightarrow> Inl e
      | Inr b \<Rightarrow> Inr \<lparr>cei_maximize = maximize, cei_objective_index = objective_index,
                      cei_best_f = best_f, cei_bounds = b\<rparr>)"

subsection \<open>The Expected Improvement of ConstrainedExpectedImprovement, at one batch element\<close>




subsection \<open>NoisyExpectedImprovement\<close>













subsection \<open>Shapes: torch's shape rules\<close>

text \<open>
  A shape is the list of a tensor's sizes. A shape function returns \<open>None\<close> where the call
  raises (sizes that do not broadcast, a view that changes the number of entries, an index
  or a dimension out of range).
\<close>

type_synonym shape = "nat list"

fun broadcast_rev :: "nat list \<Rightarrow> nat list \<Rightarrow> nat list option" where
  "broadcast_rev [] ys = Some ys"
| "broadcast_rev xs [] = Some xs"
| "broadcast_rev (x # xs) (y # ys) =
     (if x = y \<or> y = 1 then map_option ((#) x) (broadcast_rev xs ys)
      else if x = 1 then map_option ((#) y) (broadcast_rev xs ys)
      else None)"

text \<open>Broadcasting aligns the sizes from the last dimension; two sizes agree or one is 1.\<close>

definition broadcast_shapes :: "shape \<Rightarrow> shape \<Rightarrow> shape option" where
  "broadcast_shapes a b = map_option rev (broadcast_rev (rev a) (rev b))"

fun expand_rev :: "nat list \<Rightarrow> nat list \<Rightarrow> bool" where
  "expand_rev [] ys = True"
| "expand_rev (x # xs) [] = False"
| "expand_rev (x # xs) (y # ys) = ((x = y \<or> x = 1) \<and> expand_rev xs ys)"

definition expand_as :: "shape \<Rightarrow> shape \<Rightarrow> shape option" where
  "expand_as s other = (if expand_rev (rev s) (rev other) then Some other else None)"

definition view :: "shape \<Rightarrow> shape \<Rightarrow> shape option" where
  "view s new = (if prod_list s = prod_list new then Some new else None)"

text \<open>\<^verbatim>\<open>squeeze(dim=-k)\<close> and \<^verbatim>\<open>unsqueeze(-k)\<close>.\<close>

definition squeeze :: "shape \<Rightarrow> nat \<Rightarrow> shape option" where
  "squeeze s k =
     (if s = [] \<and> k = 1 then Some []
      else if k = 0 \<or> length s < k then None
      else let i = length s - k in
           if s ! i = 1 then Some (take i s @ drop (Suc i) s) else Some s)"


text \<open>\<^verbatim>\<open>t[..., inds]\<close>, \<^verbatim>\<open>torch.prod(t, dim=-1, keepdim=True)\<close> and \<^verbatim>\<open>t.mean(dim=-1)\<close>.\<close>

definition index_last :: "shape \<Rightarrow> int list \<Rightarrow> shape option" where
  "index_last s inds =
     (if s = [] then None
      else if list_all (\<lambda>i. - int (last s) \<le> i \<and> i < int (last s)) inds
      then Some (butlast s @ [length inds])
      else None)"

definition prod_keepdim :: "shape \<Rightarrow> shape option" where
  "prod_keepdim s = (if s = [] then Some [] else Some (butlast s @ [1]))"


text \<open>
  Modelled from the spec: the decorator \<^verbatim>\<open>t_batch_mode_transform(expected_q=1)\<close> of
  \<^verbatim>\<open>botorch/utils/transforms.py\<close> is not among the sources. The specification says of it that
  a candidate tensor with \<open>q \<noteq> 1\<close> where \<open>q = 1\<close> is mandated is a fatal error at
  evaluation; the decorated method then runs on \<open>X\<close>.
\<close>

definition t_batch_mode_transform :: "nat \<Rightarrow> shape \<Rightarrow> shape option" where
  "t_batch_mode_transform expected_q X =
     (if length X < 2 then None
      else if X ! (length X - 2) \<noteq> expected_q then None
      else Some X)"

text \<open>
  \<^verbatim>\<open>_get_posterior\<close> with no objective. The surrogate model is outside this file: the shape
  of the mean of \<^verbatim>\<open>self.model.posterior(X)\<close> is the argument \<open>posterior\<close>; the variance has
  the same shape. \<^verbatim>\<open>event_shape[-1]\<close> is the last size.
\<close>

definition get_posterior :: "shape \<Rightarrow> bool \<Rightarrow> shape option" where
  "get_posterior posterior check_single_output =
     (if check_single_output \<and> (posterior = [] \<or> last posterior \<noteq> 1) then None
      else Some posterior)"

subsection \<open>The shapes of the forward methods\<close>


definition PosteriorMean_forward_shape :: "shape \<Rightarrow> shape \<Rightarrow> shape option" where
  "PosteriorMean_forward_shape X posterior =
     do {
       X \<leftarrow> t_batch_mode_transform 1 X;
       posterior \<leftarrow> get_posterior posterior True;
       view posterior (take (length X - 2) X)
     }"

definition ProbabilityOfImprovement_forward_shape :: "shape \<Rightarrow> shape \<Rightarrow> shape \<Rightarrow> shape option" where
  "ProbabilityOfImprovement_forward_shape best_f X posterior =
     do {
       X \<leftarrow> t_batch_mode_transform 1 X;
       posterior \<leftarrow> get_posterior posterior True;
       let batch_shape = take (length X - 2) X;
       mean \<leftarrow> view posterior batch_shape;
       sigma \<leftarrow> view posterior batch_shape;
       best_f \<leftarrow> expand_as best_f mean;
       d \<leftarrow> broadcast_shapes mean best_f;
       u \<leftarrow> broadcast_shapes d sigma;
       broadcast_shapes u u
     }"

definition UpperConfidenceBound_forward_shape :: "shape \<Rightarrow> shape \<Rightarrow> shape \<Rightarrow> shape option" where
  "UpperConfidenceBound_forward_shape beta X posterior =
     do {
       X \<leftarrow> t_batch_mode_transform 1 X;
       posterior \<leftarrow> get_posterior posterior True;
       let batch_shape = take (length X - 2) X;
       mean \<leftarrow> view posterior batch_shape;
       variance \<leftarrow> view posterior batch_shape;
       beta \<leftarrow> expand_as beta mean;
       delta \<leftarrow> broadcast_shapes beta variance;
       broadcast_shapes mean delta
     }"

definition construct_dist_shape :: "shape \<Rightarrow> shape \<Rightarrow> int list \<Rightarrow> shape option" where
  "construct_dist_shape means sigmas inds =
     do {
       mean \<leftarrow> index_last means inds;
       sigma \<leftarrow> index_last sigmas inds;
       broadcast_shapes mean sigma
     }"

definition compute_prob_feas_shape ::
  "ConstraintBounds \<Rightarrow> shape \<Rightarrow> shape \<Rightarrow> shape \<Rightarrow> shape option" where
  "compute_prob_feas_shape b X means sigmas =
     do {
       output_shape \<leftarrow> (if X = [] then None else Some (X[length X - 1 := 1]));
       let prob_feas = output_shape;
       prob_feas \<leftarrow>
         (if length (constraint_lower_inds b) > 0
          then do {
            normal_lower \<leftarrow> construct_dist_shape means sigmas (constraint_lower_inds b);
            prob_l \<leftarrow> broadcast_shapes normal_lower [length (constraint_lower b)];
            p \<leftarrow> prod_keepdim prob_l;
            broadcast_shapes prob_feas p
          } else Some prob_feas);
       prob_feas \<leftarrow>
         (if length (constraint_upper_inds b) > 0
          then do {
            normal_upper \<leftarrow> construct_dist_shape means sigmas (constraint_upper_inds b);
            prob_u \<leftarrow> broadcast_shapes normal_upper [length (constraint_upper b)];
            p \<leftarrow> prod_keepdim prob_u;
            broadcast_shapes prob_feas p
          } else Some prob_feas);
       (if length (constraint_both_inds b) > 0
        then do {
          normal_both \<leftarrow> construct_dist_shape means sigmas (constraint_both_inds b);
          prob_u \<leftarrow> broadcast_shapes normal_both [length (constraint_both b)];
          prob_l \<leftarrow> broadcast_shapes normal_both [length (constraint_both b)];
          d \<leftarrow> broadcast_shapes prob_u prob_l;
          p \<leftarrow> prod_keepdim d;
          broadcast_shapes prob_feas p
        } else Some prob_feas)
     }"

definition ConstrainedExpectedImprovement_forward_shape ::
  "ConstrainedExpectedImprovement \<Rightarrow> shape \<Rightarrow> shape \<Rightarrow> shape \<Rightarrow> shape option" where
  "ConstrainedExpectedImprovement_forward_shape self best_f X posterior =
     do {
       X \<leftarrow> t_batch_mode_transform 1 X;
       posterior \<leftarrow> get_posterior posterior False;
       means \<leftarrow> squeeze posterior 2;
       sigmas \<leftarrow> squeeze posterior 2;
       mean_obj \<leftarrow> index_last means [cei_objective_index self];
       sigma_obj \<leftarrow> index_last sigmas [cei_objective_index self];
       best_f \<leftarrow> expand_as best_f mean_obj;
       d \<leftarrow> broadcast_shapes mean_obj best_f;
       u \<leftarrow> broadcast_shapes d sigma_obj;
       ei_pdf \<leftarrow> broadcast_shapes [1] u;
       ei_cdf \<leftarrow> broadcast_shapes [1] u;
       t \<leftarrow> broadcast_shapes u ei_cdf;
       t \<leftarrow> broadcast_shapes ei_pdf t;
       ei \<leftarrow> broadcast_shapes sigma_obj t;
       prob_feas \<leftarrow> compute_prob_feas_shape (cei_bounds self) X means sigmas;
       ei \<leftarrow> broadcast_shapes ei prob_feas;
       squeeze ei 1
     }"


subsection \<open>The constraint groups, as the specification names them\<close>

text \<open>
  The lower-only, upper-only and two-sided constraints of a constraint specification, in
  the order of the dict.
\<close>

definition lower_only :: "constraints \<Rightarrow> (int \<times> real) list" where
  "lower_only cs = [(k, l). (k, (Some l, None)) \<leftarrow> cs]"

definition upper_only :: "constraints \<Rightarrow> (int \<times> real) list" where
  "upper_only cs = [(k, u). (k, (None, Some u)) \<leftarrow> cs]"

definition two_sided :: "constraints \<Rightarrow> (int \<times> real \<times> real) list" where
  "two_sided cs = [(k, (l, u)). (k, (Some l, Some u)) \<leftarrow> cs]"

subsection \<open>The error function\<close>

text \<open>
  The error function of mathematics is the function with derivative
  \<open>2 / sqrt pi * exp (- x\<^sup>2)\<close> that tends to \<open>- 1\<close> at minus infinity. \<open>std_erf\<close> is that
  function: \<open>gauss_integral\<close> is the power series of the antiderivative of
  \<open>exp (- u\<^sup>2 / 2)\<close> that vanishes at \<open>0\<close>, and the infimum of its values is its limit at
  minus infinity. \<^verbatim>\<open>torch.erf\<close> computes a floating-point approximation of it.
\<close>

definition gauss_coeff :: "nat \<Rightarrow> real" where
  "gauss_coeff n =
     (if even n then 0
      else (- 1 / 2) ^ ((n - 1) div 2) / (fact ((n - 1) div 2) * real n))"

definition gauss_integral :: "real \<Rightarrow> real" where
  "gauss_integral u = (\<Sum>n. gauss_coeff n * u ^ n)"

definition std_erf :: "real \<Rightarrow> real" where
  "std_erf x =
     2 * ((gauss_integral (sqrt 2 * x) - Inf (range gauss_integral)) / sqrt (2 * pi)) - 1"

subsection \<open>A sampler and a posterior for examples\<close>



section \<open>Properties\<close>

lemma exp_log_prob_std_normal: "exp (log_prob std_normal u) = phi u"
proof -
  have "log_prob std_normal u = - (u ^ 2) / 2 - ln (sqrt (2 * pi))"
    by (simp add: log_prob_def std_normal_def)
  moreover have "exp (ln (sqrt (2 * pi))) = sqrt (2 * pi)"
    by (rule exp_ln) simp
  ultimately show ?thesis
    by (simp only: exp_diff phi_def)
qed

lemma cdf_std_normal: "cdf erf std_normal u = Phi erf u"
  by (simp add: cdf_def std_normal_def Phi_def)

lemma clamp_min_eps_pos: "0 < clamp_min v eps"
  by (simp add: clamp_min_def eps_def)

text \<open>
  C1. For every posterior mean and variance, every best observed value and either
  maximize flag, ExpectedImprovement returns \<open>sigma * (phi u + u * Phi u)\<close>, where
  \<open>sigma\<close> is the square root of the variance clamped from below at \<open>1e-9\<close> and
  \<open>u = (mean - best_f) / sigma\<close>, negated when minimizing.
\<close>

theorem ExpectedImprovement_formula:
  "ExpectedImprovement_forward erf best_f maximize mean variance =
     Some (let sigma = sqrt (max variance (1 / 10 ^ 9));
               u = (if maximize then (mean - best_f) / sigma else - ((mean - best_f) / sigma))
           in sigma * (phi u + u * Phi erf u))"
proof -
  have m: "clamp_min variance eps = max variance (1 / 10 ^ 9)"
    by (simp add: clamp_min_def eps_def max_def)
  have "\<not> clamp_min variance eps < 0"
    using clamp_min_eps_pos [of variance] by simp
  then have s: "torch_sqrt (clamp_min variance eps) = Some (sqrt (max variance (1 / 10 ^ 9)))"
    by (simp add: torch_sqrt_def m)
  show ?thesis
    unfolding ExpectedImprovement_forward_def s
    by (simp add: exp_log_prob_std_normal cdf_std_normal Let_def)
qed


subsection \<open>Construction of ConstrainedExpectedImprovement\<close>

lemma preprocess_loop_succeeds:
  assumes "\<And>k. k \<in> set ks \<Longrightarrow> \<exists>b. map_of cs k = Some b \<and> (\<forall>lo hi. b = (Some lo, Some hi) \<longrightarrow> lo < hi)"
  shows "\<exists>st'. preprocess_loop cs ks st = Inr st'"
  using assms
proof (induction ks arbitrary: st)
  case Nil
  then show ?case by simp
next
  case (Cons k ks)
  from Cons.prems [of k] obtain b where b: "map_of cs k = Some b"
    and ok: "\<And>lo hi. b = (Some lo, Some hi) \<Longrightarrow> lo < hi" by auto
  have rest: "\<And>st. \<exists>st'. preprocess_loop cs ks st = Inr st'"
    using Cons.IH Cons.prems by simp
  obtain l h where lh: "b = (l, h)" by (cases b)
  show ?case
  proof (cases l)
    case None
    then show ?thesis using b lh rest by (cases h) simp_all
  next
    case (Some lo)
    show ?thesis
    proof (cases h)
      case None
      then show ?thesis using b lh Some rest by simp
    next
      case (Some hi)
      with \<open>l = Some lo\<close> lh ok have "lo < hi" by simp
      then show ?thesis using b lh Some \<open>l = Some lo\<close> rest by simp
    qed
  qed
qed

lemma preprocess_loop_rejects:
  assumes "k \<in> set ks" and "map_of cs k = Some (Some lo, Some hi)" and "hi \<le> lo"
    and "\<And>k. k \<in> set ks \<Longrightarrow> map_of cs k \<noteq> None"
  shows "\<exists>msg. preprocess_loop cs ks st = Inl (ValueError msg)"
  using assms
proof (induction ks arbitrary: st)
  case Nil
  then show ?case by simp
next
  case (Cons j ks)
  show ?case
  proof (cases "\<exists>l h. map_of cs j = Some (Some l, Some h) \<and> h \<le> l")
    case True
    then show ?thesis by auto
  next
    case False
    with Cons.prems have "j \<noteq> k" by auto
    with Cons.prems have "k \<in> set ks" by simp
    then have rest: "\<And>st. \<exists>msg. preprocess_loop cs ks st = Inl (ValueError msg)"
      using Cons.IH Cons.prems by simp
    from Cons.prems(4) [of j] obtain l h where "map_of cs j = Some (l, h)" by auto
    then show ?thesis using False rest
      by (cases l; cases h) (auto simp: not_le)
  qed
qed

lemma map_of_entry: "distinct (map fst cs) \<Longrightarrow> (k, b) \<in> set cs \<Longrightarrow> map_of cs k = Some b"
  by simp

text \<open>
  C8. Constructing ConstrainedExpectedImprovement fails with a ValueError when the
  constraints are empty, when the objective index is a constrained index, and when a
  two-sided bound has its upper bound at most its lower bound; it succeeds when none of
  the three holds.
\<close>

theorem ConstrainedExpectedImprovement_init_validation:
  assumes "distinct (map fst cs)"
  shows "(cs = [] \<longrightarrow>
            (\<exists>msg. ConstrainedExpectedImprovement_init best_f objective_index cs maximize
               = Inl (ValueError msg)))
       \<and> (objective_index \<in> fst ` set cs \<longrightarrow>
            (\<exists>msg. ConstrainedExpectedImprovement_init best_f objective_index cs maximize
               = Inl (ValueError msg)))
       \<and> ((\<exists>k lo hi. (k, (Some lo, Some hi)) \<in> set cs \<and> hi \<le> lo) \<longrightarrow>
            (\<exists>msg. ConstrainedExpectedImprovement_init best_f objective_index cs maximize
               = Inl (ValueError msg)))
       \<and> (cs \<noteq> [] \<and> objective_index \<notin> fst ` set cs
            \<and> (\<forall>k lo hi. (k, (Some lo, Some hi)) \<in> set cs \<longrightarrow> lo < hi) \<longrightarrow>
            (\<exists>self. ConstrainedExpectedImprovement_init best_f objective_index cs maximize
               = Inr self))"
proof (intro conjI impI)
  assume "cs = []"
  then show "\<exists>msg. ConstrainedExpectedImprovement_init best_f objective_index cs maximize
               = Inl (ValueError msg)"
    by (simp add: ConstrainedExpectedImprovement_init_def preprocess_constraint_bounds_def)
next
  assume "objective_index \<in> fst ` set cs"
  then have "objective_index \<in> set (map fst cs)" by simp
  then show "\<exists>msg. ConstrainedExpectedImprovement_init best_f objective_index cs maximize
               = Inl (ValueError msg)"
    by (simp add: ConstrainedExpectedImprovement_init_def preprocess_constraint_bounds_def Let_def)
next
  assume "\<exists>k lo hi. (k, (Some lo, Some hi)) \<in> set cs \<and> hi \<le> lo"
  then obtain k lo hi where mem: "(k, (Some lo, Some hi)) \<in> set cs" and bad: "hi \<le> lo"
    by blast
  have k: "k \<in> set (map fst cs)" using mem by force
  have m: "map_of cs k = Some (Some lo, Some hi)" using assms mem by simp
  have dom: "\<And>j. j \<in> set (map fst cs) \<Longrightarrow> map_of cs j \<noteq> None"
    by (simp add: map_of_eq_None_iff)
  obtain msg where "preprocess_loop cs (map fst cs) no_bounds = Inl (ValueError msg)"
    using preprocess_loop_rejects [OF k m bad dom] by blast
  then show "\<exists>msg. ConstrainedExpectedImprovement_init best_f objective_index cs maximize
               = Inl (ValueError msg)"
    by (simp add: ConstrainedExpectedImprovement_init_def preprocess_constraint_bounds_def Let_def)
next
  assume a: "cs \<noteq> [] \<and> objective_index \<notin> fst ` set cs
            \<and> (\<forall>k lo hi. (k, (Some lo, Some hi)) \<in> set cs \<longrightarrow> lo < hi)"
  have "\<exists>b. map_of cs k = Some b \<and> (\<forall>lo hi. b = (Some lo, Some hi) \<longrightarrow> lo < hi)"
    if "k \<in> set (map fst cs)" for k
  proof -
    from that obtain b where "(k, b) \<in> set cs" by auto
    moreover from this assms have "map_of cs k = Some b" by simp
    ultimately show ?thesis using a by auto
  qed
  then obtain st where "preprocess_loop cs (map fst cs) no_bounds = Inr st"
    using preprocess_loop_succeeds by blast
  then show "\<exists>self. ConstrainedExpectedImprovement_init best_f objective_index cs maximize
               = Inr self"
    using a by (simp add: ConstrainedExpectedImprovement_init_def preprocess_constraint_bounds_def Let_def)
qed

theorem ConstrainedExpectedImprovement_init_validation_witness:
  "(\<exists>msg. ConstrainedExpectedImprovement_init 0 1 [] True = Inl (ValueError msg))
   \<and> (\<exists>msg. ConstrainedExpectedImprovement_init 0 0 [(0, (Some 0, None))] True
         = Inl (ValueError msg))
   \<and> (\<exists>msg. ConstrainedExpectedImprovement_init 0 1 [(0, (Some 1, Some 1))] True
         = Inl (ValueError msg))
   \<and> (\<exists>self. ConstrainedExpectedImprovement_init 0 1 [(0, (Some 0, None)), (2, (Some 0, Some 1))] True
         = Inr self)"
  using ConstrainedExpectedImprovement_init_validation
          [where cs = "[]" and best_f = 0 and objective_index = 1 and maximize = True]
        ConstrainedExpectedImprovement_init_validation
          [where cs = "[(0, (Some 0, None))]" and best_f = 0 and objective_index = 0
             and maximize = True]
        ConstrainedExpectedImprovement_init_validation
          [where cs = "[(0, (Some 1, Some 1))]" and best_f = 0 and objective_index = 1
             and maximize = True]
        ConstrainedExpectedImprovement_init_validation
          [where cs = "[(0, (Some 0, None)), (2, (Some 0, Some 1))]" and best_f = 0
             and objective_index = 1 and maximize = True]
  by simp


subsection \<open>The constraint groups\<close>

lemma lower_only_Cons:
  "lower_only ((k, (lo, hi)) # es) =
     (case (lo, hi) of (Some l, None) \<Rightarrow> [(k, l)] | _ \<Rightarrow> []) @ lower_only es"
  by (simp add: lower_only_def split: option.splits)

lemma upper_only_Cons:
  "upper_only ((k, (lo, hi)) # es) =
     (case (lo, hi) of (None, Some u) \<Rightarrow> [(k, u)] | _ \<Rightarrow> []) @ upper_only es"
  by (simp add: upper_only_def split: option.splits)

lemma two_sided_Cons:
  "two_sided ((k, (lo, hi)) # es) =
     (case (lo, hi) of (Some l, Some u) \<Rightarrow> [(k, (l, u))] | _ \<Rightarrow> []) @ two_sided es"
  by (simp add: two_sided_def split: option.splits)

lemma preprocess_loop_groups:
  assumes "distinct (map fst cs)" and "set es \<subseteq> set cs"
    and "preprocess_loop cs (map fst es) st = Inr st'"
  shows "constraint_lower_inds st' = constraint_lower_inds st @ map fst (lower_only es)
       \<and> constraint_lower st' = constraint_lower st @ map snd (lower_only es)
       \<and> constraint_upper_inds st' = constraint_upper_inds st @ map fst (upper_only es)
       \<and> constraint_upper st' = constraint_upper st @ map snd (upper_only es)
       \<and> constraint_both_inds st' = constraint_both_inds st @ map fst (two_sided es)
       \<and> constraint_both st' = constraint_both st @ map snd (two_sided es)"
  using assms(2,3)
proof (induction es arbitrary: st)
  case Nil
  then show ?case by (simp add: lower_only_def upper_only_def two_sided_def)
next
  case (Cons e es)
  obtain k lo hi where e: "e = (k, (lo, hi))" by (cases e) auto
  have m: "map_of cs k = Some (lo, hi)"
    using assms(1) Cons.prems(1) e by simp
  have sub: "set es \<subseteq> set cs" using Cons.prems(1) by simp
  show ?case
  proof (cases lo)
    case None
    show ?thesis
    proof (cases hi)
      case None
      with \<open>lo = None\<close> Cons.prems(2) e m
      have "preprocess_loop cs (map fst es) st = Inr st'" by simp
      from Cons.IH [OF sub this] show ?thesis
        by (simp add: e lower_only_Cons upper_only_Cons two_sided_Cons None \<open>lo = None\<close>)
    next
      case (Some u)
      with \<open>lo = None\<close> Cons.prems(2) e m
      have "preprocess_loop cs (map fst es)
              (st\<lparr>constraint_upper_inds := constraint_upper_inds st @ [k],
                  constraint_upper := constraint_upper st @ [u]\<rparr>) = Inr st'" by simp
      from Cons.IH [OF sub this] show ?thesis
        by (simp add: e lower_only_Cons upper_only_Cons two_sided_Cons Some \<open>lo = None\<close>)
    qed
  next
    case (Some l)
    show ?thesis
    proof (cases hi)
      case None
      with \<open>lo = Some l\<close> Cons.prems(2) e m
      have "preprocess_loop cs (map fst es)
              (st\<lparr>constraint_lower_inds := constraint_lower_inds st @ [k],
                  constraint_lower := constraint_lower st @ [l]\<rparr>) = Inr st'" by simp
      from Cons.IH [OF sub this] show ?thesis
        by (simp add: e lower_only_Cons upper_only_Cons two_sided_Cons None \<open>lo = Some l\<close>)
    next
      case (Some u)
      with \<open>lo = Some l\<close> Cons.prems(2) e m
      have "preprocess_loop cs (map fst es)
              (st\<lparr>constraint_both_inds := constraint_both_inds st @ [k],
                  constraint_both := constraint_both st @ [(l, u)]\<rparr>) = Inr st'"
        by (simp split: if_splits)
      from Cons.IH [OF sub this] show ?thesis
        by (simp add: e lower_only_Cons upper_only_Cons two_sided_Cons Some \<open>lo = Some l\<close>)
    qed
  qed
qed

lemma preprocess_constraint_bounds_groups:
  assumes "distinct (map fst cs)" and "preprocess_constraint_bounds objective_index cs = Inr b"
  shows "constraint_lower_inds b = map fst (lower_only cs)"
    and "constraint_lower b = map snd (lower_only cs)"
    and "constraint_upper_inds b = map fst (upper_only cs)"
    and "constraint_upper b = map snd (upper_only cs)"
    and "constraint_both_inds b = map fst (two_sided cs)"
    and "constraint_both b = map snd (two_sided cs)"
proof -
  from assms(2) have "preprocess_loop cs (map fst cs) no_bounds = Inr b"
    by (simp add: preprocess_constraint_bounds_def Let_def split: if_splits)
  from preprocess_loop_groups [OF assms(1) subset_refl this]
  show "constraint_lower_inds b = map fst (lower_only cs)"
    and "constraint_lower b = map snd (lower_only cs)"
    and "constraint_upper_inds b = map fst (upper_only cs)"
    and "constraint_upper b = map snd (upper_only cs)"
    and "constraint_both_inds b = map fst (two_sided cs)"
    and "constraint_both b = map snd (two_sided cs)"
    by (simp_all add: no_bounds_def)
qed

lemma mem_lower_only: "(k, l) \<in> set (lower_only cs) \<longleftrightarrow> (k, (Some l, None)) \<in> set cs"
  by (induction cs) (auto simp: lower_only_Cons lower_only_def split: option.splits)

lemma mem_upper_only: "(k, u) \<in> set (upper_only cs) \<longleftrightarrow> (k, (None, Some u)) \<in> set cs"
  by (induction cs) (auto simp: upper_only_Cons upper_only_def split: option.splits)

lemma mem_two_sided: "(k, (l, u)) \<in> set (two_sided cs) \<longleftrightarrow> (k, (Some l, Some u)) \<in> set cs"
  by (induction cs) (auto simp: two_sided_Cons two_sided_def split: option.splits)

subsection \<open>Constraints without a bound\<close>

text \<open>
  C9, as stated: a constraint whose lower and upper bounds are both \<open>None\<close> is not accepted
  at construction. The loop has no branch for such an entry and raises nothing: the
  construction succeeds, with every group empty.
\<close>

theorem unbounded_constraint_accepted:
  "ConstrainedExpectedImprovement_init 0 1 [(0, (None, None))] True =
     Inr \<lparr>cei_maximize = True, cei_objective_index = 1, cei_best_f = 0,
          cei_bounds = no_bounds\<rparr>"
  by (simp add: ConstrainedExpectedImprovement_init_def preprocess_constraint_bounds_def)

text \<open>
  C9, amended. A construction that passes the three checks succeeds whether or not some
  constraint has both bounds \<open>None\<close>; such a constraint is put in none of the three groups,
  and the indices of the groups are exactly the constrained indices with at least one bound.
\<close>

theorem ConstrainedExpectedImprovement_init_groups:
  assumes "distinct (map fst cs)"
    and "cs \<noteq> []" and "objective_index \<notin> fst ` set cs"
    and "\<forall>k lo hi. (k, (Some lo, Some hi)) \<in> set cs \<longrightarrow> lo < hi"
  shows "\<exists>self. ConstrainedExpectedImprovement_init best_f objective_index cs maximize = Inr self
           \<and> (\<forall>k. k \<in> set (constraint_lower_inds (cei_bounds self))
                     \<union> set (constraint_upper_inds (cei_bounds self))
                     \<union> set (constraint_both_inds (cei_bounds self))
                 \<longleftrightarrow> (\<exists>lo hi. (k, (lo, hi)) \<in> set cs \<and> (lo \<noteq> None \<or> hi \<noteq> None)))"
proof -
  have "\<exists>b. map_of cs k = Some b \<and> (\<forall>lo hi. b = (Some lo, Some hi) \<longrightarrow> lo < hi)"
    if "k \<in> set (map fst cs)" for k
  proof -
    from that obtain b where "(k, b) \<in> set cs" by auto
    moreover from this assms(1) have "map_of cs k = Some b" by simp
    ultimately show ?thesis using assms(4) by auto
  qed
  then obtain b where loop: "preprocess_loop cs (map fst cs) no_bounds = Inr b"
    using preprocess_loop_succeeds by blast
  then have pre: "preprocess_constraint_bounds objective_index cs = Inr b"
    using assms(2,3) by (simp add: preprocess_constraint_bounds_def Let_def)
  note g = preprocess_constraint_bounds_groups [OF assms(1) pre]
  let ?self = "\<lparr>cei_maximize = maximize, cei_objective_index = objective_index,
                 cei_best_f = best_f, cei_bounds = b\<rparr>"
  have init: "ConstrainedExpectedImprovement_init best_f objective_index cs maximize = Inr ?self"
    by (simp add: ConstrainedExpectedImprovement_init_def pre)
  have "k \<in> set (constraint_lower_inds b) \<union> set (constraint_upper_inds b)
              \<union> set (constraint_both_inds b)
        \<longleftrightarrow> (\<exists>lo hi. (k, (lo, hi)) \<in> set cs \<and> (lo \<noteq> None \<or> hi \<noteq> None))" for k
  proof
    assume "k \<in> set (constraint_lower_inds b) \<union> set (constraint_upper_inds b)
              \<union> set (constraint_both_inds b)"
    then consider l where "(k, l) \<in> set (lower_only cs)"
      | u where "(k, u) \<in> set (upper_only cs)"
      | l u where "(k, l, u) \<in> set (two_sided cs)"
      unfolding g by auto
    then show "\<exists>lo hi. (k, (lo, hi)) \<in> set cs \<and> (lo \<noteq> None \<or> hi \<noteq> None)"
      by cases (auto simp: mem_lower_only mem_upper_only mem_two_sided)
  next
    assume "\<exists>lo hi. (k, (lo, hi)) \<in> set cs \<and> (lo \<noteq> None \<or> hi \<noteq> None)"
    then obtain lo hi where mem: "(k, (lo, hi)) \<in> set cs" and some: "lo \<noteq> None \<or> hi \<noteq> None"
      by blast
    show "k \<in> set (constraint_lower_inds b) \<union> set (constraint_upper_inds b)
              \<union> set (constraint_both_inds b)"
    proof (cases lo)
      case None
      with some obtain u where "hi = Some u" by auto
      with None mem have "(k, u) \<in> set (upper_only cs)" by (simp add: mem_upper_only)
      then show ?thesis unfolding g by force
    next
      case (Some l)
      show ?thesis
      proof (cases hi)
        case None
        with Some mem have "(k, l) \<in> set (lower_only cs)" by (simp add: mem_lower_only)
        then show ?thesis unfolding g by force
      next
        case (Some u)
        with \<open>lo = Some l\<close> mem have "(k, l, u) \<in> set (two_sided cs)"
          by (simp add: mem_two_sided)
        then show ?thesis unfolding g by force
      qed
    qed
  qed
  with init show ?thesis by simp
qed

theorem ConstrainedExpectedImprovement_init_groups_witness:
  "\<exists>self. ConstrainedExpectedImprovement_init 0 1
             [(0, (None, None)), (2, (Some 0, None)), (3, (None, Some 1))] True = Inr self
     \<and> (\<forall>k. k \<in> set (constraint_lower_inds (cei_bounds self))
               \<union> set (constraint_upper_inds (cei_bounds self))
               \<union> set (constraint_both_inds (cei_bounds self))
           \<longleftrightarrow> (k = 2 \<or> k = 3))"
proof -
  have "(\<exists>lo hi. (k, (lo, hi)) \<in> set [(0, (None, None)), (2, (Some (0::real), None)),
             (3, (None, Some (1::real)))] \<and> (lo \<noteq> None \<or> hi \<noteq> None))
        \<longleftrightarrow> (k = 2 \<or> k = 3)" for k :: int
    by auto
  then show ?thesis
    using ConstrainedExpectedImprovement_init_groups
      [where cs = "[(0, (None, None)), (2, (Some 0, None)), (3, (None, Some 1))]"
         and best_f = 0 and objective_index = 1 and maximize = True]
    by simp
qed

subsection \<open>UpperConfidenceBound and PosteriorMean\<close>

text \<open>
  C6. For a posterior with mean \<open>mean\<close> and variance \<open>variance \<ge> 0\<close> and a trade-off
  coefficient \<open>beta \<ge> 0\<close>, UpperConfidenceBound with \<open>maximize = True\<close> minus PosteriorMean
  is \<open>sqrt (beta * variance)\<close>, which is non-negative and does not decrease when \<open>beta\<close>
  grows.
\<close>

theorem UpperConfidenceBound_minus_PosteriorMean:
  assumes "0 \<le> variance" and "0 \<le> beta" and "beta \<le> beta'"
  shows "map_option (\<lambda>ucb. ucb - PosteriorMean_forward mean)
           (UpperConfidenceBound_forward beta True mean variance) = Some (sqrt (beta * variance))
       \<and> 0 \<le> sqrt (beta * variance)
       \<and> map_option (\<lambda>ucb. ucb - PosteriorMean_forward mean)
           (UpperConfidenceBound_forward beta' True mean variance) = Some (sqrt (beta' * variance))
       \<and> sqrt (beta * variance) \<le> sqrt (beta' * variance)"
proof -
  have b': "0 \<le> beta'" using assms by simp
  have "0 \<le> beta * variance" and "0 \<le> beta' * variance"
    using assms b' by simp_all
  moreover have "beta * variance \<le> beta' * variance"
    using assms by (simp add: mult_right_mono)
  ultimately show ?thesis
    by (simp add: UpperConfidenceBound_forward_def PosteriorMean_forward_def torch_sqrt_def)
qed

theorem UpperConfidenceBound_minus_PosteriorMean_witness:
  "map_option (\<lambda>ucb. ucb - PosteriorMean_forward 3)
      (UpperConfidenceBound_forward 1 True 3 4) = Some 2
   \<and> map_option (\<lambda>ucb. ucb - PosteriorMean_forward 3)
      (UpperConfidenceBound_forward 4 True 3 4) = Some 4"
  using UpperConfidenceBound_minus_PosteriorMean [of 4 1 4 3]
    real_sqrt_four real_sqrt_abs [of 4]
  by simp

subsection \<open>The power series of the Gaussian integral\<close>

lemma gauss_term_summable: "summable (\<lambda>m. (- 1 / 2) ^ m * x ^ (2 * m + 1) / (fact m * real (2 * m + 1)))"
proof (rule summable_rabs_cancel, rule summable_rabs_comparison_test)
  show "summable (\<lambda>m. \<bar>x\<bar> * ((x\<^sup>2 / 2) ^ m /\<^sub>R fact m))"
    by (intro summable_mult sums_summable [OF exp_converges])
  show "\<exists>N. \<forall>m\<ge>N. \<bar>(- 1 / 2) ^ m * x ^ (2 * m + 1) / (fact m * real (2 * m + 1))\<bar>
          \<le> \<bar>x\<bar> * ((x\<^sup>2 / 2) ^ m /\<^sub>R fact m)"
  proof (intro exI allI impI)
    fix m :: nat
    have a: "\<bar>(- 1 / 2 :: real) ^ m\<bar> = (1 / 2) ^ m"
      by (simp add: power_abs)
    have "\<bar>x\<bar> ^ (2 * m) = (x\<^sup>2) ^ m"
      by (simp add: power_mult)
    then have b: "\<bar>x ^ (2 * m + 1)\<bar> = \<bar>x\<bar> * (x\<^sup>2) ^ m"
      by (simp add: abs_mult power_abs)
    have c: "(x\<^sup>2 / 2) ^ m = (x\<^sup>2) ^ m * (1 / 2) ^ m"
      by (simp add: power_divide)
    have "\<bar>(- 1 / 2) ^ m * x ^ (2 * m + 1) / (fact m * real (2 * m + 1))\<bar>
          = \<bar>(- 1 / 2 :: real) ^ m\<bar> * \<bar>x ^ (2 * m + 1)\<bar> / (fact m * real (2 * m + 1))"
      by (simp add: abs_mult)
    also have "\<dots> = \<bar>x\<bar> * ((x\<^sup>2 / 2) ^ m / fact m) / real (2 * m + 1)"
      unfolding a b c by simp
    finally have "\<bar>(- 1 / 2) ^ m * x ^ (2 * m + 1) / (fact m * real (2 * m + 1))\<bar>
          = \<bar>x\<bar> * ((x\<^sup>2 / 2) ^ m / fact m) / real (2 * m + 1)" .
    also have "\<dots> \<le> \<bar>x\<bar> * ((x\<^sup>2 / 2) ^ m / fact m) / 1"
    proof -
      have "0 \<le> \<bar>x\<bar> * ((x\<^sup>2 / 2) ^ m / fact m)" by simp
      moreover have "(1::real) \<le> real (2 * m + 1)" by simp
      ultimately show ?thesis
        by (intro frac_le) simp_all
    qed
    finally have "\<bar>(- 1 / 2) ^ m * x ^ (2 * m + 1) / (fact m * real (2 * m + 1))\<bar>
          \<le> \<bar>x\<bar> * ((x\<^sup>2 / 2) ^ m / fact m)"
      by simp
    moreover have "(x\<^sup>2 / 2) ^ m /\<^sub>R fact m = (x\<^sup>2 / 2) ^ m / fact m"
      by (simp add: inverse_eq_divide)
    ultimately show "\<bar>(- 1 / 2) ^ m * x ^ (2 * m + 1) / (fact m * real (2 * m + 1))\<bar>
          \<le> \<bar>x\<bar> * ((x\<^sup>2 / 2) ^ m /\<^sub>R fact m)"
      by (simp only:)
  qed
qed

lemma gauss_coeff_summable: "summable (\<lambda>n. gauss_coeff n * x ^ n)"
proof -
  let ?g = "\<lambda>m. (- 1 / 2) ^ m * x ^ (2 * m + 1) / (fact m * real (2 * m + 1))"
  have "(\<lambda>n. if even n then 0 else ?g ((n - 1) div 2)) sums suminf ?g"
    by (rule sums_if') (rule summable_sums [OF gauss_term_summable])
  moreover have "(if even n then 0 else ?g ((n - 1) div 2)) = gauss_coeff n * x ^ n" for n
  proof (cases "even n")
    case True
    then show ?thesis by (simp add: gauss_coeff_def)
  next
    case False
    then obtain m where n: "n = 2 * m + 1" by (auto elim: oddE)
    then show ?thesis by (simp add: gauss_coeff_def)
  qed
  ultimately show ?thesis by (simp add: sums_iff)
qed

lemma diffs_gauss_coeff:
  "diffs gauss_coeff n = (if even n then (- 1 / 2) ^ (n div 2) / fact (n div 2) else 0)"
proof (cases "even n")
  case True
  then obtain m where "n = 2 * m" by (auto elim: evenE)
  then show ?thesis by (simp add: diffs_def gauss_coeff_def)
next
  case False
  then show ?thesis by (simp add: diffs_def gauss_coeff_def)
qed

lemma diffs_gauss_sums: "(\<lambda>n. diffs gauss_coeff n * x ^ n) sums exp (- (x\<^sup>2) / 2)"
proof -
  let ?f = "\<lambda>m. (- (x\<^sup>2) / 2) ^ m /\<^sub>R fact m"
  have "(\<lambda>n. if even n then ?f (n div 2) else (\<lambda>_. 0) ((n - 1) div 2)) sums (0 + exp (- (x\<^sup>2) / 2))"
    by (rule sums_if [OF sums_zero exp_converges])
  moreover have "(if even n then ?f (n div 2) else 0) = diffs gauss_coeff n * x ^ n" for n
  proof (cases "even n")
    case True
    then obtain m where n: "n = 2 * m" by (auto elim: evenE)
    have "(- (x\<^sup>2) / 2) ^ m = ((- 1 / 2) * x\<^sup>2) ^ m"
      by simp
    also have "\<dots> = (- 1 / 2) ^ m * (x\<^sup>2) ^ m"
      by (rule power_mult_distrib)
    also have "(x\<^sup>2) ^ m = x ^ (2 * m)"
      by (simp add: power_mult)
    finally have p: "(- (x\<^sup>2) / 2) ^ m = (- 1 / 2) ^ m * x ^ (2 * m)" .
    have "(- (x\<^sup>2) / 2) ^ m /\<^sub>R fact m = (- (x\<^sup>2) / 2) ^ m / fact m"
      by (simp add: inverse_eq_divide)
    also have "\<dots> = (- 1 / 2) ^ m / fact m * x ^ (2 * m)"
      unfolding p by simp
    finally have "(- (x\<^sup>2) / 2) ^ m /\<^sub>R fact m = (- 1 / 2) ^ m / fact m * x ^ (2 * m)" .
    moreover have "diffs gauss_coeff (2 * m) = (- 1 / 2) ^ m / fact m"
      by (simp add: diffs_gauss_coeff)
    moreover have "2 * m div 2 = m" by simp
    ultimately show ?thesis unfolding n
      by (simp only: even_mult_iff even_numeral if_True simp_thms)
  next
    case False
    then show ?thesis by (simp add: diffs_gauss_coeff)
  qed
  ultimately show ?thesis by simp
qed

lemma DERIV_gauss_integral: "(gauss_integral has_real_derivative exp (- (x\<^sup>2) / 2)) (at x)"
proof -
  have "((\<lambda>x. \<Sum>n. gauss_coeff n * x ^ n) has_real_derivative (\<Sum>n. diffs gauss_coeff n * x ^ n)) (at x)"
    by (rule termdiffs_strong_converges_everywhere) (rule gauss_coeff_summable)
  moreover have "(\<Sum>n. diffs gauss_coeff n * x ^ n) = exp (- (x\<^sup>2) / 2)"
    using diffs_gauss_sums [of x] by (simp add: sums_iff)
  moreover have "gauss_integral = (\<lambda>x. \<Sum>n. gauss_coeff n * x ^ n)"
    by (simp add: gauss_integral_def fun_eq_iff)
  ultimately show ?thesis by simp
qed

subsection \<open>The formula of Expected Improvement is non-negative in exact arithmetic\<close>

text \<open>
  For the error function of mathematics and real numbers, \<open>phi u + u * Phi u\<close> is never
  negative: \<open>Phi u < phi u / (- u)\<close> for \<open>u < 0\<close>. This is a property of the formula. It is
  not a property of the value that the program returns: in floating point \<open>1 + erf\<close> cancels
  for \<open>u\<close> far below 0, and the rounded sum can be below 0.
\<close>

lemma DERIV_phi: "(phi has_real_derivative - u * phi u) (at u)"
proof -
  have "((\<lambda>u. - (u ^ 2) / 2) has_real_derivative - u) (at u)"
    by (auto intro!: derivative_eq_intros)
  then have "((\<lambda>u. exp (- (u ^ 2) / 2)) has_real_derivative exp (- (u ^ 2) / 2) * (- u)) (at u)"
    by (rule DERIV_fun_exp)
  then have "((\<lambda>u. exp (- (u ^ 2) / 2) / sqrt (2 * pi)) has_real_derivative
          exp (- (u ^ 2) / 2) * (- u) / sqrt (2 * pi)) (at u)"
    by (rule DERIV_cdivide)
  moreover have "phi = (\<lambda>u. exp (- (u ^ 2) / 2) / sqrt (2 * pi))"
    by (simp add: phi_def fun_eq_iff)
  moreover have "exp (- (u ^ 2) / 2) * (- u) / sqrt (2 * pi) = - u * phi u"
    by (simp add: phi_def)
  ultimately show ?thesis by simp
qed

lemma phi_pos: "0 < phi u"
  by (simp add: phi_def)

lemma phi_le: "phi u \<le> 1 / sqrt (2 * pi)"
proof -
  have "exp (- (u ^ 2) / 2) \<le> exp 0"
    by (subst exp_le_cancel_iff) simp
  then show ?thesis
    by (simp add: phi_def divide_right_mono)
qed

lemma DERIV_Phi:
  assumes "(\<forall>x. (erf has_real_derivative 2 / sqrt pi * exp (- (x ^ 2))) (at x)) \<and> (erf \<longlongrightarrow> - 1) at_bot"
  shows "(Phi erf has_real_derivative phi u) (at u)"
proof -
  have e: "(erf has_real_derivative 2 / sqrt pi * exp (- ((u / sqrt 2) ^ 2))) (at (u / sqrt 2))"
    using assms by blast
  have "((\<lambda>u. u / sqrt 2) has_real_derivative 1 / sqrt 2) (at u)"
    by (rule DERIV_cdivide) (rule DERIV_ident)
  with e have "((\<lambda>u. erf (u / sqrt 2)) has_real_derivative
                 2 / sqrt pi * exp (- ((u / sqrt 2) ^ 2)) * (1 / sqrt 2)) (at u)"
    by (rule DERIV_chain2)
  then have "((\<lambda>u. (1 + erf (u / sqrt 2)) / 2) has_real_derivative
                 (0 + 2 / sqrt pi * exp (- ((u / sqrt 2) ^ 2)) * (1 / sqrt 2)) / 2) (at u)"
    by (intro DERIV_cdivide DERIV_add DERIV_const)
  moreover have "(u / sqrt 2) ^ 2 = u ^ 2 / 2"
    by (simp add: power_divide)
  moreover have "(0 + 2 / sqrt pi * E * (1 / sqrt 2)) / 2 = E / sqrt (2 * pi)" for E :: real
    by (simp add: real_sqrt_mult real_div_sqrt)
  moreover have "Phi erf = (\<lambda>u. (1 + erf (u / sqrt 2)) / 2)"
    by (simp add: Phi_def fun_eq_iff)
  ultimately show ?thesis
    by (simp only: phi_def minus_divide_left)
qed

lemma scale_at_bot:
  assumes "0 < c"
  shows "filterlim (\<lambda>u::real. u * c) at_bot at_bot"
  unfolding filterlim_at_bot eventually_at_bot_linorder
proof
  fix Z :: real
  have "n * c \<le> Z" if "n \<le> Z / c" for n
    using that assms by (simp add: pos_le_divide_eq)
  then show "\<exists>N. \<forall>n\<le>N. n * c \<le> Z" by blast
qed

lemma Phi_tendsto:
  assumes "(\<forall>x. (erf has_real_derivative 2 / sqrt pi * exp (- (x ^ 2))) (at x)) \<and> (erf \<longlongrightarrow> - 1) at_bot"
  shows "(Phi erf \<longlongrightarrow> 0) at_bot"
proof -
  have lim: "(erf \<longlongrightarrow> - 1) at_bot"
    using assms by blast
  have "filterlim (\<lambda>u::real. u * (1 / sqrt 2)) at_bot at_bot"
    by (rule scale_at_bot) simp
  then have "filterlim (\<lambda>u::real. u / sqrt 2) at_bot at_bot"
    by simp
  with lim have "((\<lambda>u. erf (u / sqrt 2)) \<longlongrightarrow> - 1) at_bot"
    by (rule filterlim_compose)
  then have "((\<lambda>u. (1 + erf (u / sqrt 2)) / 2) \<longlongrightarrow> (1 + - 1) / 2) at_bot"
    by (intro tendsto_divide tendsto_add tendsto_const) simp_all
  moreover have "Phi erf = (\<lambda>u. (1 + erf (u / sqrt 2)) / 2)"
    by (simp add: Phi_def fun_eq_iff)
  ultimately show ?thesis by simp
qed

lemma Phi_pos:
  assumes "(\<forall>x. (erf has_real_derivative 2 / sqrt pi * exp (- (x ^ 2))) (at x)) \<and> (erf \<longlongrightarrow> - 1) at_bot"
  shows "0 < Phi erf u"
proof (rule DERIV_pos_imp_increasing_at_bot [OF _ Phi_tendsto [OF assms]])
  fix x :: real
  show "\<exists>y. (Phi erf has_real_derivative y) (at x) \<and> 0 < y"
    using DERIV_Phi [OF assms, of x] phi_pos [of x] by blast
qed

lemma phi_over_tendsto: "((\<lambda>u. phi u / (- u)) \<longlongrightarrow> 0) at_bot"
proof (rule tendsto_sandwich)
  show "\<forall>\<^sub>F u in at_bot. 0 \<le> phi u / (- u)"
    unfolding eventually_at_bot_linorder
  proof (intro exI allI impI)
    fix u :: real
    assume "u \<le> - 1"
    then have "0 < - u" by simp
    then show "0 \<le> phi u / (- u)"
      by (intro divide_nonneg_pos less_imp_le [OF phi_pos])
  qed
  show "\<forall>\<^sub>F u in at_bot. phi u / (- u) \<le> (1 / sqrt (2 * pi)) * inverse (- u)"
    unfolding eventually_at_bot_linorder
  proof (intro exI allI impI)
    fix u :: real
    assume "u \<le> - 1"
    then have "0 \<le> inverse (- u)" by simp
    then have "phi u * inverse (- u) \<le> (1 / sqrt (2 * pi)) * inverse (- u)"
      by (intro mult_right_mono phi_le)
    then show "phi u / (- u) \<le> (1 / sqrt (2 * pi)) * inverse (- u)"
      by (simp only: divide_inverse)
  qed
  show "((\<lambda>u::real. 0) \<longlongrightarrow> 0) at_bot"
    by simp
  have "((\<lambda>u::real. inverse (- u)) \<longlongrightarrow> 0) at_bot"
    by (rule tendsto_inverse_0_at_top) (rule filterlim_uminus_at_top_at_bot)
  then have "((\<lambda>u::real. (1 / sqrt (2 * pi)) * inverse (- u)) \<longlongrightarrow> (1 / sqrt (2 * pi)) * 0) at_bot"
    by (intro tendsto_intros)
  then show "((\<lambda>u::real. (1 / sqrt (2 * pi)) * inverse (- u)) \<longlongrightarrow> 0) at_bot"
    by simp
qed

lemma mills_bound:
  assumes "(\<forall>x. (erf has_real_derivative 2 / sqrt pi * exp (- (x ^ 2))) (at x)) \<and> (erf \<longlongrightarrow> - 1) at_bot"
    and "u < 0"
  shows "Phi erf u < phi u / (- u)"
proof -
  let ?k = "\<lambda>x. phi x / (- x) - Phi erf x"
  have lim: "(?k \<longlongrightarrow> 0 - 0) at_bot"
    by (intro tendsto_diff phi_over_tendsto Phi_tendsto [OF assms(1)])
  have der: "\<exists>y. (?k has_real_derivative y) (at x) \<and> 0 < y" if "x \<le> u" for x
  proof -
    from that assms(2) have x: "x < 0" by simp
    then have nz: "- x \<noteq> 0" by simp
    have g: "((\<lambda>x::real. - x) has_real_derivative - 1) (at x)"
      by (auto intro!: derivative_eq_intros)
    have "((\<lambda>x. phi x / (- x)) has_real_derivative
            ((- x * phi x) * (- x) - phi x * (- 1)) / ((- x) * (- x))) (at x)"
      using DERIV_divide [where f = phi and g = "\<lambda>x. - x", OF DERIV_phi g] nz by simp
    then have "(?k has_real_derivative
            ((- x * phi x) * (- x) - phi x * (- 1)) / ((- x) * (- x)) - phi x) (at x)"
      by (rule DERIV_diff [OF _ DERIV_Phi [OF assms(1)]])
    moreover have "((- x * phi x) * (- x) - phi x * (- 1)) / ((- x) * (- x)) - phi x
                   = phi x / (x * x)"
      using x by (simp add: field_simps)
    moreover have "0 < phi x / (x * x)"
      using x phi_pos [of x] by (simp add: zero_less_mult_iff)
    ultimately show ?thesis by auto
  qed
  have "0 - 0 < ?k u"
    by (rule DERIV_pos_imp_increasing_at_bot [OF der lim])
  then show ?thesis by simp
qed

lemma ei_kernel_nonneg:
  assumes "(\<forall>x. (erf has_real_derivative 2 / sqrt pi * exp (- (x ^ 2))) (at x)) \<and> (erf \<longlongrightarrow> - 1) at_bot"
  shows "0 \<le> phi u + u * Phi erf u"
proof (cases "u < 0")
  case True
  from True have "0 < - u" by simp
  with mills_bound [OF assms True] have "Phi erf u * (- u) < phi u"
    by (simp only: pos_less_divide_eq)
  then have "0 < phi u + u * Phi erf u"
    by (simp add: algebra_simps)
  then show ?thesis by simp
next
  case False
  then have "0 \<le> u * Phi erf u"
    using Phi_pos [OF assms, of u] by simp
  then show ?thesis
    using phi_pos [of u] by simp
qed

lemma ExpectedImprovement_forward_value:
  "ExpectedImprovement_forward erf best_f maximize mean variance =
     Some (sqrt (max variance (1 / 10 ^ 9))
           * (phi (if maximize then (mean - best_f) / sqrt (max variance (1 / 10 ^ 9))
                   else - ((mean - best_f) / sqrt (max variance (1 / 10 ^ 9))))
              + (if maximize then (mean - best_f) / sqrt (max variance (1 / 10 ^ 9))
                 else - ((mean - best_f) / sqrt (max variance (1 / 10 ^ 9))))
                * Phi erf (if maximize then (mean - best_f) / sqrt (max variance (1 / 10 ^ 9))
                   else - ((mean - best_f) / sqrt (max variance (1 / 10 ^ 9))))))"
proof -
  have m: "clamp_min variance eps = max variance (1 / 10 ^ 9)"
    by (simp add: clamp_min_def eps_def max_def)
  have "\<not> clamp_min variance eps < 0"
    using clamp_min_eps_pos [of variance] by simp
  then have s: "torch_sqrt (clamp_min variance eps) = Some (sqrt (max variance (1 / 10 ^ 9)))"
    by (simp add: torch_sqrt_def m)
  show ?thesis
    unfolding ExpectedImprovement_forward_def s
    by (simp add: exp_log_prob_std_normal cdf_std_normal Let_def)
qed

lemma exact_ExpectedImprovement_nonneg:
  assumes "(\<forall>x. (erf has_real_derivative 2 / sqrt pi * exp (- (x ^ 2))) (at x)) \<and> (erf \<longlongrightarrow> - 1) at_bot"
  shows "\<exists>ei. ExpectedImprovement_forward erf best_f maximize mean variance = Some ei \<and> 0 \<le> ei"
  unfolding ExpectedImprovement_forward_value
  by (simp add: ei_kernel_nonneg [OF assms])

subsection \<open>A function that is the error function\<close>

lemma gauss_integral_mono:
  assumes "a \<le> b"
  shows "gauss_integral a \<le> gauss_integral b"
proof (rule DERIV_nonneg_imp_nondecreasing [OF assms])
  fix x :: real
  show "\<exists>y. (gauss_integral has_real_derivative y) (at x) \<and> 0 \<le> y"
    using DERIV_gauss_integral [of x] by (intro exI [of _ "exp (- (x\<^sup>2) / 2)"]) simp
qed

lemma gauss_integral_tail:
  assumes "a \<le> - 2"
  shows "gauss_integral (- 2) - exp (- 2) \<le> gauss_integral a - exp a"
proof (rule DERIV_nonpos_imp_nonincreasing [OF assms])
  fix x :: real
  assume "a \<le> x" and x: "x \<le> - 2"
  have "((\<lambda>x. gauss_integral x - exp x) has_real_derivative exp (- (x\<^sup>2) / 2) - exp x) (at x)"
    by (intro DERIV_diff DERIV_gauss_integral DERIV_exp)
  moreover have "exp (- (x\<^sup>2) / 2) - exp x \<le> 0"
  proof -
    have "0 \<le> x * (x + 2)"
      using x by (intro mult_nonpos_nonpos) simp_all
    then have "- (x\<^sup>2) / 2 \<le> x"
      by (simp add: power2_eq_square algebra_simps)
    then show ?thesis by simp
  qed
  ultimately show "\<exists>y. ((\<lambda>x. gauss_integral x - exp x) has_real_derivative y) (at x) \<and> y \<le> 0"
    by blast
qed

lemma gauss_integral_bounded: "gauss_integral (- 2) - exp (- 2) \<le> gauss_integral a"
proof (cases "a \<le> - 2")
  case True
  have "0 \<le> exp a" by simp
  with gauss_integral_tail [OF True] show ?thesis by linarith
next
  case False
  then have "gauss_integral (- 2) \<le> gauss_integral a"
    by (intro gauss_integral_mono) simp
  moreover have "0 \<le> exp (- 2 :: real)" by simp
  ultimately show ?thesis by linarith
qed

lemma bdd_below_gauss_integral: "bdd_below (range gauss_integral)"
  by (rule bdd_belowI [of _ "gauss_integral (- 2) - exp (- 2)"]) (auto simp: gauss_integral_bounded)

lemma gauss_integral_tendsto: "(gauss_integral \<longlongrightarrow> Inf (range gauss_integral)) at_bot"
proof (rule tendstoI)
  fix e :: real
  assume "0 < e"
  let ?L = "Inf (range gauss_integral)"
  have "?L < ?L + e" using \<open>0 < e\<close> by simp
  then obtain y where "y \<in> range gauss_integral" and "y < ?L + e"
    using cInf_lessD [of "range gauss_integral" "?L + e"] by auto
  then obtain a where a: "gauss_integral a < ?L + e" by auto
  have "dist (gauss_integral u) ?L < e" if "u \<le> a" for u
  proof -
    have "?L \<le> gauss_integral u"
      by (rule cInf_lower [OF _ bdd_below_gauss_integral]) simp
    moreover have "gauss_integral u \<le> gauss_integral a"
      by (rule gauss_integral_mono [OF that])
    ultimately show ?thesis
      using a by (simp add: dist_real_def)
  qed
  then show "\<forall>\<^sub>F u in at_bot. dist (gauss_integral u) ?L < e"
    unfolding eventually_at_bot_linorder by blast
qed

lemma std_erf_is_erf:
  "(\<forall>x. (std_erf has_real_derivative 2 / sqrt pi * exp (- (x ^ 2))) (at x))
   \<and> (std_erf \<longlongrightarrow> - 1) at_bot"
proof (intro conjI allI)
  fix x :: real
  let ?L = "Inf (range gauss_integral)"
  have s: "((\<lambda>x. sqrt 2 * x) has_real_derivative sqrt 2) (at x)"
    using DERIV_cmult [OF DERIV_ident, of "sqrt 2" x UNIV] by simp
  have "((\<lambda>x. gauss_integral (sqrt 2 * x)) has_real_derivative
           exp (- ((sqrt 2 * x)\<^sup>2) / 2) * sqrt 2) (at x)"
    by (rule DERIV_chain2 [OF DERIV_gauss_integral s])
  then have "((\<lambda>x. gauss_integral (sqrt 2 * x) - ?L) has_real_derivative
           exp (- ((sqrt 2 * x)\<^sup>2) / 2) * sqrt 2 - 0) (at x)"
    by (intro DERIV_diff DERIV_const)
  then have "((\<lambda>x. (gauss_integral (sqrt 2 * x) - ?L) / sqrt (2 * pi)) has_real_derivative
           (exp (- ((sqrt 2 * x)\<^sup>2) / 2) * sqrt 2 - 0) / sqrt (2 * pi)) (at x)"
    by (rule DERIV_cdivide)
  then have "((\<lambda>x. 2 * ((gauss_integral (sqrt 2 * x) - ?L) / sqrt (2 * pi))) has_real_derivative
           2 * ((exp (- ((sqrt 2 * x)\<^sup>2) / 2) * sqrt 2 - 0) / sqrt (2 * pi))) (at x)"
    by (rule DERIV_cmult)
  then have "((\<lambda>x. 2 * ((gauss_integral (sqrt 2 * x) - ?L) / sqrt (2 * pi)) - 1) has_real_derivative
           2 * ((exp (- ((sqrt 2 * x)\<^sup>2) / 2) * sqrt 2 - 0) / sqrt (2 * pi)) - 0) (at x)"
    by (intro DERIV_diff DERIV_const)
  moreover have "(sqrt 2 * x)\<^sup>2 = 2 * x\<^sup>2"
    by (simp add: power_mult_distrib)
  moreover have "2 * ((E * sqrt 2 - 0) / sqrt (2 * pi)) - 0 = 2 / sqrt pi * E" for E :: real
    by (simp add: real_sqrt_mult)
  moreover have "std_erf = (\<lambda>x. 2 * ((gauss_integral (sqrt 2 * x) - ?L) / sqrt (2 * pi)) - 1)"
    by (simp add: std_erf_def fun_eq_iff)
  ultimately show "(std_erf has_real_derivative 2 / sqrt pi * exp (- (x\<^sup>2))) (at x)"
    by simp
next
  let ?L = "Inf (range gauss_integral)"
  have "filterlim (\<lambda>x::real. x * sqrt 2) at_bot at_bot"
    by (rule scale_at_bot) simp
  then have "filterlim (\<lambda>x::real. sqrt 2 * x) at_bot at_bot"
    by (simp add: mult.commute)
  with gauss_integral_tendsto have "((\<lambda>x. gauss_integral (sqrt 2 * x)) \<longlongrightarrow> ?L) at_bot"
    by (rule filterlim_compose)
  then have "((\<lambda>x. 2 * ((gauss_integral (sqrt 2 * x) - ?L) / sqrt (2 * pi)) - 1)
               \<longlongrightarrow> 2 * ((?L - ?L) / sqrt (2 * pi)) - 1) at_bot"
    by (intro tendsto_diff tendsto_mult tendsto_divide tendsto_const) simp_all
  moreover have "std_erf = (\<lambda>x. 2 * ((gauss_integral (sqrt 2 * x) - ?L) / sqrt (2 * pi)) - 1)"
    by (simp add: std_erf_def fun_eq_iff)
  ultimately show "(std_erf \<longlongrightarrow> - 1) at_bot"
    by simp
qed

lemma std_erf_ExpectedImprovement_nonneg:
  "\<exists>ei. ExpectedImprovement_forward std_erf best_f maximize mean variance = Some ei \<and> 0 \<le> ei"
  by (rule exact_ExpectedImprovement_nonneg [OF std_erf_is_erf])

subsection \<open>The Expected Improvement factor of ConstrainedExpectedImprovement\<close>





subsection \<open>The shape of the scores\<close>

text \<open>
  C7 says that every scoring entry point returns a tensor of the batch shape. For a batch
  of two candidates, a model with two outputs and one lower-only constraint,
  ConstrainedExpectedImprovement.forward returns a tensor of shape \<open>2 \<times> 2\<close>:
  \<^verbatim>\<open>prob_feas\<close> starts with the shape \<open>2 \<times> 1 \<times> 1\<close>, and broadcasting it against the
  \<open>2 \<times> 1\<close> product of a group and against the \<open>2 \<times> 1\<close> Expected Improvement gives
  \<open>2 \<times> 2 \<times> 1\<close>, of which only the last dimension is squeezed.
\<close>

theorem ConstrainedExpectedImprovement_shape_of_batch_2:
  "ConstrainedExpectedImprovement_forward_shape
     \<lparr>cei_maximize = True, cei_objective_index = 1, cei_best_f = 0,
      cei_bounds = \<lparr>constraint_lower_inds = [0], constraint_upper_inds = [],
        constraint_both_inds = [], constraint_lower = [0], constraint_upper = [],
        constraint_both = []\<rparr>\<rparr>
     [] [2, 1, 3] [2, 1, 2] = Some [2, 2]"
  by (simp add: ConstrainedExpectedImprovement_forward_shape_def t_batch_mode_transform_def
      get_posterior_def squeeze_def index_last_def expand_as_def broadcast_shapes_def
      compute_prob_feas_shape_def construct_dist_shape_def prod_keepdim_def)

text \<open>
  C2 says that the feasibility probability is, at every batch element, 1 multiplied by the
  products of the three groups. For a batch of shape \<open>2 \<times> 3\<close>, a model with two outputs
  and one lower-only constraint, \<^verbatim>\<open>_compute_prob_feas\<close> raises: \<^verbatim>\<open>prob_feas\<close> starts with the
  shape \<open>2 \<times> 3 \<times> 1 \<times> 1\<close>, the product of the group has the shape \<open>2 \<times> 3 \<times> 1\<close>, and
  the sizes 3 and 2 do not broadcast. For a batch of two candidates it returns a tensor of
  shape \<open>2 \<times> 2 \<times> 1\<close>, where its docstring says \<open>(b) \<times> 1 \<times> 1\<close>.
\<close>

theorem compute_prob_feas_shape_of_batches:
  "compute_prob_feas_shape
     \<lparr>constraint_lower_inds = [0], constraint_upper_inds = [], constraint_both_inds = [],
      constraint_lower = [0], constraint_upper = [], constraint_both = []\<rparr>
     [2, 3, 1, 4] [2, 3, 2] [2, 3, 2] = None
   \<and> compute_prob_feas_shape
     \<lparr>constraint_lower_inds = [0], constraint_upper_inds = [], constraint_both_inds = [],
      constraint_lower = [0], constraint_upper = [], constraint_both = []\<rparr>
     [2, 1, 4] [2, 2] [2, 2] = Some [2, 2, 1]"
  by (simp add: compute_prob_feas_shape_def construct_dist_shape_def index_last_def
      broadcast_shapes_def prod_keepdim_def)

text \<open>
  The other entry points return the batch shape, for a model whose posterior at candidates of
  shape \<open>batch \<times> 1 \<times> d\<close> has the shape \<open>batch \<times> 1 \<times> 1\<close>.
\<close>

lemma broadcast_rev_same: "broadcast_rev xs xs = Some xs"
  by (induction xs) simp_all

lemma broadcast_shapes_same: "broadcast_shapes s s = Some s"
  by (simp add: broadcast_shapes_def broadcast_rev_same)

lemma view_drop_ones: "view (bs @ [1, 1]) bs = Some bs"
  by (simp add: view_def)

lemma t_batch_mode_transform_one: "t_batch_mode_transform 1 (xs @ [1, d]) = Some (xs @ [1, d])"
  by (simp add: t_batch_mode_transform_def nth_append)

lemma get_posterior_single: "get_posterior (bs @ [1, 1]) c = Some (bs @ [1, 1])"
  by (simp add: get_posterior_def)

lemma take_batch: "take (length (bs @ [a, b]) - 2) (bs @ [a, b]) = bs"
  by simp


lemma expand_as_scalar: "expand_as [] bs = Some bs"
  by (simp add: expand_as_def)


lemma PosteriorMean_forward_shape_batch:
  "PosteriorMean_forward_shape (bs @ [1, d]) (bs @ [1, 1]) = Some bs"
  by (simp add: PosteriorMean_forward_shape_def t_batch_mode_transform_one
      get_posterior_single take_batch view_drop_ones
      del: One_nat_def length_append take_append)

lemma ProbabilityOfImprovement_forward_shape_batch:
  "ProbabilityOfImprovement_forward_shape [] (bs @ [1, d]) (bs @ [1, 1]) = Some bs"
  by (simp add: ProbabilityOfImprovement_forward_shape_def t_batch_mode_transform_one
      get_posterior_single take_batch view_drop_ones broadcast_shapes_same expand_as_scalar
      del: One_nat_def length_append take_append)

lemma UpperConfidenceBound_forward_shape_batch:
  "UpperConfidenceBound_forward_shape [] (bs @ [1, d]) (bs @ [1, 1]) = Some bs"
  by (simp add: UpperConfidenceBound_forward_shape_def t_batch_mode_transform_one
      get_posterior_single take_batch view_drop_ones broadcast_shapes_same expand_as_scalar
      del: One_nat_def length_append take_append)

subsection \<open>NoisyExpectedImprovement\<close>














end
